theory Spec2Isabelle
  imports Main "HOL-Library.Word"
begin

section \<open>JavaScript strings and values\<close>

text \<open>
  A JavaScript string is a sequence of UTF-16 code units. The regular expressions of
  \<^verbatim>\<open>formatCsvCell\<close> carry no \<^verbatim>\<open>u\<close> flag, so they match code unit by code unit.
\<close>

type_synonym jschar = "16 word"
type_synonym jsstring = "jschar list"

text \<open>ASCII literals: \<open>js ''abc''\<close> is the JavaScript string \<^verbatim>\<open>'abc'\<close>.\<close>

definition js :: "string \<Rightarrow> jsstring" where
  "js s = map of_char s"

definition dquote :: jschar where
  "dquote = 0x22"

definition comma :: jschar where
  "comma = 0x2C"

definition newline :: jschar where
  "newline = 0x0A"

text \<open>
  The values a field of a book record can hold: \<^verbatim>\<open>null\<close>, \<^verbatim>\<open>undefined\<close> (a field
  that was not retrieved) or a string (the text and picklist fields of the record).
\<close>

datatype jsvalue = JSNull | JSUndefined | JSString jsstring

section \<open>The regular expressions of formatCsvCell\<close>

text \<open>\<^verbatim>\<open>cell.replace(/"/g, '""')\<close>: every quote code unit becomes two.\<close>

fun replace_quotes :: "jsstring \<Rightarrow> jsstring" where
  "replace_quotes [] = []"
| "replace_quotes (c # cs) =
     (if c = dquote then dquote # dquote # replace_quotes cs else c # replace_quotes cs)"

text \<open>
  The class \<^verbatim>\<open>\s\<close> of ECMAScript: the WhiteSpace and LineTerminator code points
  (TAB, LF, VT, FF, CR, SP, NBSP, U+1680, U+2000 to U+200A, U+2028, U+2029, U+202F,
  U+205F, U+3000, U+FEFF).
\<close>

definition is_whitespace :: "jschar \<Rightarrow> bool" where
  "is_whitespace c \<longleftrightarrow>
     c = 0x09 \<or> c = 0x0A \<or> c = 0x0B \<or> c = 0x0C \<or> c = 0x0D \<or> c = 0x20 \<or> c = 0xA0 \<or>
     c = 0x1680 \<or> (0x2000 \<le> c \<and> c \<le> 0x200A) \<or> c = 0x2028 \<or> c = 0x2029 \<or>
     c = 0x202F \<or> c = 0x205F \<or> c = 0x3000 \<or> c = 0xFEFF"

text \<open>One code unit against the alternation \<^verbatim>\<open>("|,|\n|\s)\<close>.\<close>

definition matches_special :: "jschar \<Rightarrow> bool" where
  "matches_special c \<longleftrightarrow> c = dquote \<or> c = comma \<or> c = newline \<or> is_whitespace c"

text \<open>
  \<^verbatim>\<open>cell.search(/("|,|\n|\s)/g)\<close>: the index of the first match, or \<open>-1\<close>.
  \<open>search_from k cs\<close> scans \<open>cs\<close>, whose first code unit has index \<open>k\<close>.
\<close>

fun search_from :: "int \<Rightarrow> jsstring \<Rightarrow> int" where
  "search_from k [] = -1"
| "search_from k (c # cs) = (if matches_special c then k else search_from (k + 1) cs)"

definition search :: "jsstring \<Rightarrow> int" where
  "search cell = search_from 0 cell"

section \<open>formatCsvCell\<close>

text \<open>
  \<^verbatim>\<open>value == null\<close> holds for \<^verbatim>\<open>null\<close> and for \<^verbatim>\<open>undefined\<close>, and for nothing
  else. \<^verbatim>\<open>toString()\<close> of a string is the string.
\<close>

definition formatCsvCell :: "jsvalue \<Rightarrow> jsstring" where
  "formatCsvCell v =
     (case v of
        JSNull \<Rightarrow> [dquote, dquote]
      | JSUndefined \<Rightarrow> [dquote, dquote]
      | JSString s \<Rightarrow>
          let cell = s;
              cell = replace_quotes cell;
              cell = (if search cell \<ge> 0 then dquote # cell @ [dquote] else cell)
          in cell)"

section \<open>Building the document\<close>

text \<open>
  A book as the child component hands it over: \<^verbatim>\<open>{ Id, Name, Book_Genre__c, Author__r.Name }\<close>.
  The export does not read \<^verbatim>\<open>Id\<close>. \<^verbatim>\<open>Author__r\<close> is an object or is missing; the
  source tests it for truthiness, and an object is always truthy.
\<close>

record author =
  Name :: jsvalue

record book =
  Name :: jsvalue
  Author__r :: "author option"
  Book_Genre__c :: jsvalue

text \<open>\<^verbatim>\<open>array.join(separator)\<close> on an array of strings.\<close>

fun join :: "jsstring list \<Rightarrow> jsstring \<Rightarrow> jsstring" where
  "join [] sep = []"
| "join [x] sep = x"
| "join (x # y # ys) sep = x @ sep @ join (y # ys) sep"

definition headers :: "jsstring list" where
  "headers = [js ''Book Name'', js ''Author'', js ''Genre'']"

text \<open>The array \<^verbatim>\<open>row\<close> after its three \<^verbatim>\<open>push\<close> calls.\<close>

definition csvRow :: "book \<Rightarrow> jsstring list" where
  "csvRow b =
     [formatCsvCell (book.Name b),
      formatCsvCell (case Author__r b of Some a \<Rightarrow> author.Name a | None \<Rightarrow> JSString []),
      formatCsvCell (Book_Genre__c b)]"

text \<open>
  The array \<^verbatim>\<open>csvLines\<close>: the header line is pushed first, then \<^verbatim>\<open>forEach\<close> pushes
  one joined row per book.
\<close>

definition csvLines :: "book list \<Rightarrow> jsstring list" where
  "csvLines bookData =
     foldl (\<lambda>lines b. lines @ [join (csvRow b) [comma]]) [join headers [comma]] bookData"

definition csvString :: "book list \<Rightarrow> jsstring" where
  "csvString bookData = join (csvLines bookData) [newline]"

section \<open>encodeURI\<close>

text \<open>
  \<^verbatim>\<open>encodeURI\<close> as ECMA-262 defines it: a code unit of the unescaped set (letters,
  digits, the marks \<^verbatim>\<open>-_.!~*'()\<close>, the reserved characters \<^verbatim>\<open>;/?:@&=+$,\<close> and
  \<^verbatim>\<open>#\<close>) is copied; any other code point is written as the percent-escaped octets
  of its UTF-8 encoding; an unpaired surrogate throws \<^verbatim>\<open>URIError\<close>.
\<close>

datatype js_error = URIError

definition uri_unescaped :: "jschar \<Rightarrow> bool" where
  "uri_unescaped c \<longleftrightarrow>
     (0x41 \<le> c \<and> c \<le> 0x5A) \<or> (0x61 \<le> c \<and> c \<le> 0x7A) \<or> (0x30 \<le> c \<and> c \<le> 0x39) \<or>
     c \<in> set (js ''-_.!~*'()'') \<or> c \<in> set (js '';/?:@&=+$,#'')"

definition is_lead_surrogate :: "jschar \<Rightarrow> bool" where
  "is_lead_surrogate c \<longleftrightarrow> 0xD800 \<le> c \<and> c \<le> 0xDBFF"

definition is_trail_surrogate :: "jschar \<Rightarrow> bool" where
  "is_trail_surrogate c \<longleftrightarrow> 0xDC00 \<le> c \<and> c \<le> 0xDFFF"

definition surrogate_pair :: "jschar \<Rightarrow> jschar \<Rightarrow> nat" where
  "surrogate_pair lead trail = (unat lead - 0xD800) * 0x400 + (unat trail - 0xDC00) + 0x10000"

definition utf8_octets :: "nat \<Rightarrow> nat list" where
  "utf8_octets cp =
     (if cp < 0x80 then [cp]
      else if cp < 0x800 then [0xC0 + cp div 0x40, 0x80 + cp mod 0x40]
      else if cp < 0x10000 then
        [0xE0 + cp div 0x1000, 0x80 + cp div 0x40 mod 0x40, 0x80 + cp mod 0x40]
      else
        [0xF0 + cp div 0x40000, 0x80 + cp div 0x1000 mod 0x40, 0x80 + cp div 0x40 mod 0x40,
         0x80 + cp mod 0x40])"

definition hex_digit :: "nat \<Rightarrow> jschar" where
  "hex_digit n = (if n < 10 then 0x30 + of_nat n else 0x41 + of_nat (n - 10))"

definition percent_octet :: "nat \<Rightarrow> jsstring" where
  "percent_octet b = [0x25, hex_digit (b div 16), hex_digit (b mod 16)]"

definition percent_escape :: "nat \<Rightarrow> jsstring" where
  "percent_escape cp = concat (map percent_octet (utf8_octets cp))"

fun prepend :: "jsstring \<Rightarrow> js_error + jsstring \<Rightarrow> js_error + jsstring" where
  "prepend xs (Inl e) = Inl e"
| "prepend xs (Inr ys) = Inr (xs @ ys)"

fun encodeURI :: "jsstring \<Rightarrow> js_error + jsstring" where
  "encodeURI [] = Inr []"
| "encodeURI [c] =
     (if uri_unescaped c then Inr [c]
      else if is_lead_surrogate c \<or> is_trail_surrogate c then Inl URIError
      else Inr (percent_escape (unat c)))"
| "encodeURI (c # d # ds) =
     (if uri_unescaped c then prepend [c] (encodeURI (d # ds))
      else if is_trail_surrogate c then Inl URIError
      else if is_lead_surrogate c then
        (if is_trail_surrogate d then prepend (percent_escape (surrogate_pair c d)) (encodeURI ds)
         else Inl URIError)
      else prepend (percent_escape (unat c)) (encodeURI (d # ds)))"

section \<open>The component and its host\<close>

text \<open>
  The reactive fields of the component. The rows being edited in the two modals are not
  touched by the export and stay abstract.
\<close>

record ('a, 'b) library_manager =
  isAddAuthorModalOpen :: bool
  authorsToCreate :: "'a list"
  isAddBookModalOpen :: bool
  booksToCreate :: "'b list"
  genreOptions :: "(jsstring \<times> jsstring) list"
  defaultBookRecordTypeId :: "jsstring option"
  isDeleteAuthorModalOpen :: bool
  authorToDeleteId :: "jsstring option"

text \<open>The anchor element and the properties the source sets on it.\<close>

record anchor =
  href :: jsstring
  target :: jsstring
  download :: jsstring

text \<open>
  What the component asks of its host, in order: a dispatched toast event (title,
  message, variant), and the three calls on the document. Creating the detached element
  has no effect on the document and is not recorded.
\<close>

datatype host_call =
  DispatchToast jsstring jsstring jsstring
| AppendChild anchor
| Click anchor
| RemoveChild anchor

record ('a, 'b) world =
  component :: "('a, 'b) library_manager"
  calls :: "host_call list"

definition showToast ::
  "jsstring \<Rightarrow> jsstring \<Rightarrow> jsstring \<Rightarrow> ('a, 'b) world \<Rightarrow> ('a, 'b) world" where
  "showToast title message variant w =
     w\<lparr>calls := calls w @ [DispatchToast title message variant]\<rparr>"

definition bom :: jschar where
  "bom = 0xFEFF"

text \<open>
  \<^verbatim>\<open>downloadCsv\<close>. A \<^verbatim>\<open>URIError\<close> of \<^verbatim>\<open>encodeURI\<close> leaves the function before
  the element reaches the document.
\<close>

definition downloadCsv ::
  "jsstring \<Rightarrow> jsstring \<Rightarrow> ('a, 'b) world \<Rightarrow> js_error + ('a, 'b) world" where
  "downloadCsv csvData fileName w =
     (case encodeURI (bom # csvData) of
        Inl e \<Rightarrow> Inl e
      | Inr encoded \<Rightarrow>
          let hiddenElement =
                \<lparr>href = js ''data:text/csv;charset=utf-8,'' @ encoded,
                 target = js ''_blank'',
                 download = fileName\<rparr>
          in Inr (w\<lparr>calls := calls w @
                    [AppendChild hiddenElement, Click hiddenElement, RemoveChild hiddenElement]\<rparr>))"

text \<open>
  \<^verbatim>\<open>handleExportClick\<close>; \<open>bookData\<close> is what \<^verbatim>\<open>getBookData()\<close> of the child
  component returned.
\<close>

definition handleExportClick ::
  "book list \<Rightarrow> ('a, 'b) world \<Rightarrow> js_error + ('a, 'b) world" where
  "handleExportClick bookData w =
     (if length bookData = 0
      then Inr (showToast (js ''No Data'') (js ''No data to export.'') (js ''info'') w)
      else downloadCsv (csvString bookData) (js ''book-list.csv'') w)"

section \<open>Notions the properties are stated with\<close>

text \<open>
  Every quote of the text belongs to a pair of adjacent quotes, reading from the left:
  the text holds no quote that a CSV reader would take for the end of a quoted field.
\<close>

fun quotes_paired :: "jsstring \<Rightarrow> bool" where
  "quotes_paired [] = True"
| "quotes_paired [c] = (c \<noteq> dquote)"
| "quotes_paired (c # d # cs) =
     (if c = dquote then d = dquote \<and> quotes_paired cs else quotes_paired (d # cs))"

text \<open>\<^verbatim>\<open>text.split(sep)\<close> for a separator of one code unit.\<close>

fun split :: "jsstring \<Rightarrow> jschar \<Rightarrow> jsstring list" where
  "split [] sep = [[]]"
| "split (c # cs) sep =
     (if c = sep then [] # split cs sep
      else (case split cs sep of [] \<Rightarrow> [[c]] | l # ls \<Rightarrow> (c # l) # ls))"

text \<open>
  The number of cells a CSV reader finds in one line: a comma separates two cells unless
  it stands inside a quoted field; \<open>q\<close> tells whether the reader is inside one.
\<close>

fun csv_cells :: "bool \<Rightarrow> jsstring \<Rightarrow> nat" where
  "csv_cells q [] = 1"
| "csv_cells q (c # cs) =
     (if c = dquote then csv_cells (\<not> q) cs
      else if c = comma \<and> \<not> q then Suc (csv_cells q cs)
      else csv_cells q cs)"

definition csv_cell_count :: "jsstring \<Rightarrow> nat" where
  "csv_cell_count line = csv_cells False line"

text \<open>
  What a \<^verbatim>\<open>data:\<close> URI denotes (RFC 2397, RFC 3986): the URI proper ends at its first
  \<^verbatim>\<open>#\<close>, what follows being the fragment; the data are what stands after the first
  comma, with every \<^verbatim>\<open>%\<close> followed by two hexadecimal digits read as one octet and
  every other character as its own (the \<^verbatim>\<open>href\<close> built here is ASCII).
\<close>

definition uri_without_fragment :: "jsstring \<Rightarrow> jsstring" where
  "uri_without_fragment uri = takeWhile (\<lambda>c. c \<noteq> 0x23) uri"

definition after_comma :: "jsstring \<Rightarrow> jsstring" where
  "after_comma uri = drop 1 (dropWhile (\<lambda>c. c \<noteq> comma) uri)"

definition hex_value :: "jschar \<Rightarrow> nat option" where
  "hex_value c =
     (if 0x30 \<le> c \<and> c \<le> 0x39 then Some (unat c - 0x30)
      else if 0x41 \<le> c \<and> c \<le> 0x46 then Some (unat c - 0x41 + 10)
      else if 0x61 \<le> c \<and> c \<le> 0x66 then Some (unat c - 0x61 + 10)
      else None)"

fun percent_decode :: "jsstring \<Rightarrow> nat list" where
  "percent_decode (c # h # l # rest) =
     (case (c = 0x25, hex_value h, hex_value l) of
        (True, Some a, Some b) \<Rightarrow> (16 * a + b) # percent_decode rest
      | _ \<Rightarrow> unat c # percent_decode (h # l # rest))"
| "percent_decode (c # cs) = unat c # percent_decode cs"
| "percent_decode [] = []"

definition data_uri_payload :: "jsstring \<Rightarrow> nat list" where
  "data_uri_payload uri = percent_decode (after_comma (uri_without_fragment uri))"

text \<open>
  The octets of a string in UTF-8: a surrogate pair is one code point, any other code
  unit is its own.
\<close>

fun utf8_text :: "jsstring \<Rightarrow> nat list" where
  "utf8_text [] = []"
| "utf8_text [c] = utf8_octets (unat c)"
| "utf8_text (c # d # ds) =
     (if is_lead_surrogate c \<and> is_trail_surrogate d
      then utf8_octets (surrogate_pair c d) @ utf8_text ds
      else utf8_octets (unat c) @ utf8_text (d # ds))"

section \<open>Properties of the cell escaper\<close>

lemma search_from_found:
  "0 \<le> k \<Longrightarrow> (0 \<le> search_from k cs) = (\<exists>c \<in> set cs. matches_special c)"
proof (induction cs arbitrary: k)
  case Nil
  show ?case by simp
next
  case (Cons c cs)
  from Cons.prems have "0 \<le> k + 1" by simp
  from Cons.IH [OF this] Cons.prems show ?case by simp
qed

lemma search_found: "(0 \<le> search cell) = (\<exists>c \<in> set cell. matches_special c)"
  unfolding search_def by (rule search_from_found) simp

lemma set_replace_quotes: "set (replace_quotes s) = set s"
  by (induction s) auto

lemma replace_quotes_id: "dquote \<notin> set s \<Longrightarrow> replace_quotes s = s"
  by (induction s) auto

lemma formatCsvCell_string:
  "formatCsvCell (JSString s) =
     (if \<exists>c \<in> set s. matches_special c then dquote # replace_quotes s @ [dquote]
      else replace_quotes s)"
  by (simp add: formatCsvCell_def search_found set_replace_quotes)

lemma formatCsvCell_null: "formatCsvCell JSNull = [dquote, dquote]"
  by (simp add: formatCsvCell_def)

lemma formatCsvCell_undefined: "formatCsvCell JSUndefined = [dquote, dquote]"
  by (simp add: formatCsvCell_def)

lemmas eval_defs =
  csvString_def csvLines_def csvRow_def formatCsvCell_string formatCsvCell_null
  formatCsvCell_undefined js_def headers_def
  matches_special_def comma_def dquote_def newline_def is_whitespace_def

text \<open>
  C1. The cell escaper returns the two-character string of two quote characters for
  \<^verbatim>\<open>null\<close> and for \<^verbatim>\<open>undefined\<close>.
\<close>

theorem formatCsvCell_null_undefined:
  \<open>formatCsvCell JSNull = js ''""'' \<and> formatCsvCell JSUndefined = js ''""''
   \<and> js ''""'' = [dquote, dquote] \<and> length (formatCsvCell JSNull) = 2\<close>
  by (simp add: formatCsvCell_def js_def dquote_def)

lemma quotes_paired_Cons: "c \<noteq> dquote \<Longrightarrow> quotes_paired (c # cs) = quotes_paired cs"
  by (cases cs) auto

lemma quotes_paired_replace: "quotes_paired (replace_quotes s)"
  by (induction s) (auto simp: quotes_paired_Cons)

text \<open>
  C3. For every string that contains a comma, the escaped cell starts with a quote, ends
  with a quote, and every quote strictly between these two belongs to a doubled pair.
\<close>

theorem formatCsvCell_comma_quoted:
  assumes "comma \<in> set s"
  shows "let cell = formatCsvCell (JSString s)
         in 2 \<le> length cell \<and> hd cell = dquote \<and> last cell = dquote \<and>
            quotes_paired (butlast (tl cell))"
proof -
  from assms have "\<exists>c \<in> set s. matches_special c"
    by (auto simp: matches_special_def)
  then have "formatCsvCell (JSString s) = dquote # replace_quotes s @ [dquote]"
    by (simp add: formatCsvCell_string)
  then show ?thesis
    by (simp add: quotes_paired_replace butlast_append)
qed

theorem formatCsvCell_comma_quoted_witness:
  \<open>comma \<in> set (js ''a,"b'') \<and>
   (let cell = formatCsvCell (JSString (js ''a,"b''))
    in cell = js ''"a,""b"'' \<and> 2 \<le> length cell \<and> hd cell = dquote \<and> last cell = dquote \<and>
       quotes_paired (butlast (tl cell)))\<close>
  using formatCsvCell_comma_quoted [of \<open>js ''a,"b''\<close>]
  by (simp add: eval_defs)

lemma replace_quotes_nth:
  "i < length s \<Longrightarrow>
     (let r = replace_quotes s; p = i + count_list (take i s) dquote
      in p < length r \<and>
         (if s ! i = dquote then Suc p < length r \<and> r ! p = dquote \<and> r ! Suc p = dquote
          else r ! p = s ! i))"
proof (induction s arbitrary: i)
  case Nil
  then show ?case by simp
next
  case (Cons c cs)
  show ?case
  proof (cases i)
    case 0
    then show ?thesis by (simp add: Let_def)
  next
    case (Suc j)
    with Cons.prems have "j < length cs" by simp
    from Cons.IH [OF this] Suc show ?thesis by (simp add: Let_def)
  qed
qed

lemma count_replace_quotes:
  "count_list (replace_quotes s) dquote = 2 * count_list s dquote"
  by (induction s) auto

lemma length_replace_quotes:
  "length (replace_quotes s) = length s + count_list s dquote"
  by (induction s) auto

text \<open>
  C4. For every string that contains a quote, every quote of the string appears doubled
  in the escaped cell: the quote at index \<open>i\<close> of \<open>s\<close> stands, twice in a row, at the
  index \<open>i\<close> shifted by the opening quote and by the quotes doubled before it; the cell
  holds twice the quotes of \<open>s\<close> and the two enclosing ones, and nothing else is added.
\<close>

theorem formatCsvCell_quotes_doubled:
  assumes "dquote \<in> set s" and "i < length s" and "s ! i = dquote"
  shows "let out = formatCsvCell (JSString s); p = Suc (i + count_list (take i s) dquote)
         in Suc p < length out - 1 \<and> out ! p = dquote \<and> out ! Suc p = dquote \<and>
            count_list out dquote = 2 * count_list s dquote + 2 \<and>
            length out = length s + count_list s dquote + 2"
proof -
  from assms(1) have "\<exists>c \<in> set s. matches_special c"
    by (auto simp: matches_special_def)
  then have out: "formatCsvCell (JSString s) = dquote # replace_quotes s @ [dquote]"
    by (simp add: formatCsvCell_string)
  from replace_quotes_nth [OF assms(2)] assms(3)
  have p: "Suc (i + count_list (take i s) dquote) < length (replace_quotes s)"
    "replace_quotes s ! (i + count_list (take i s) dquote) = dquote"
    "replace_quotes s ! Suc (i + count_list (take i s) dquote) = dquote"
    by (simp_all add: Let_def)
  show ?thesis
    unfolding Let_def out using p
    by (simp add: nth_append count_replace_quotes length_replace_quotes)
qed

theorem formatCsvCell_quotes_doubled_witness:
  \<open>dquote \<in> set (js ''6" x 9"'') \<and> 6 < length (js ''6" x 9"'') \<and> js ''6" x 9"'' ! 6 = dquote \<and>
   formatCsvCell (JSString (js ''6" x 9"'')) = js ''"6"" x 9"""'' \<and>
   (let out = formatCsvCell (JSString (js ''6" x 9"''));
        p = Suc (6 + count_list (take 6 (js ''6" x 9"'')) dquote)
    in p = 8 \<and> Suc p < length out - 1 \<and> out ! p = dquote \<and> out ! Suc p = dquote \<and>
       count_list out dquote = 2 * count_list (js ''6" x 9"'') dquote + 2 \<and>
       length out = length (js ''6" x 9"'') + count_list (js ''6" x 9"'') dquote + 2)\<close>
  using formatCsvCell_quotes_doubled [of \<open>js ''6" x 9"''\<close> 6]
  by (simp add: eval_defs)

text \<open>
  C5. For every string with no comma, no quote, no newline and no whitespace character,
  the escaper is the identity.
\<close>

theorem formatCsvCell_plain_identity:
  assumes "\<forall>c \<in> set s. c \<noteq> comma \<and> c \<noteq> dquote \<and> c \<noteq> newline \<and> \<not> is_whitespace c"
  shows "formatCsvCell (JSString s) = s"
proof -
  from assms have "\<not> (\<exists>c \<in> set s. matches_special c)"
    by (auto simp: matches_special_def)
  moreover from assms have "dquote \<notin> set s" by auto
  ultimately show ?thesis
    by (simp add: formatCsvCell_string replace_quotes_id)
qed

theorem formatCsvCell_plain_identity_witness:
  "list_all (\<lambda>c. c \<noteq> comma \<and> c \<noteq> dquote \<and> c \<noteq> newline \<and> \<not> is_whitespace c)
     (js ''Sci-Fi'') \<and>
   formatCsvCell (JSString (js ''Sci-Fi'')) = js ''Sci-Fi''"
  using formatCsvCell_plain_identity [of "js ''Sci-Fi''"]
  by (simp add: js_def comma_def dquote_def newline_def is_whitespace_def)

section \<open>Properties of the document\<close>

lemma foldl_snoc_map: "foldl (\<lambda>acc x. acc @ [f x]) acc xs = acc @ map f xs"
  by (induction xs arbitrary: acc) simp_all

lemma csvLines_map:
  "csvLines bookData = join headers [comma] # map (\<lambda>b. join (csvRow b) [comma]) bookData"
  by (simp add: csvLines_def foldl_snoc_map)

text \<open>
  C2, as the code has it. The columns are not a parameter of the builder: the header is
  always \<^verbatim>\<open>Book Name,Author,Genre\<close> and every row has the three cells of the name,
  the author's name and the genre. For the single book named \<^verbatim>\<open>O'Brien, J.\<close> of genre
  \<^verbatim>\<open>Sci-Fi\<close>, with no author retrieved, the document is the header line and the row
  \<^verbatim>\<open>"O'Brien, J.",,Sci-Fi\<close>: the name is wrapped in quotes, the author cell is
  empty, the genre is left as it is.
\<close>

theorem csvString_obrien:
  \<open>csvString [\<lparr>Name = JSString (js ''O'Brien, J.''), Author__r = None,
                Book_Genre__c = JSString (js ''Sci-Fi'')\<rparr>] =
   js ''Book Name,Author,Genre'' @ [newline] @ js ''"O'Brien, J.",,Sci-Fi''\<close>
  by (simp add: eval_defs)

text \<open>The two-column document of the claim is not what the builder returns for that book.\<close>

theorem csvString_obrien_counterexample:
  \<open>csvString [\<lparr>Name = JSString (js ''O'Brien, J.''), Author__r = None,
                Book_Genre__c = JSString (js ''Sci-Fi'')\<rparr>] \<noteq>
   js ''Name,Genre'' @ [newline] @ js ''"O'Brien, J.",Sci-Fi''\<close>
  by (simp add: eval_defs)

lemma split_no_sep: "sep \<notin> set l \<Longrightarrow> split l sep = [l]"
  by (induction l) auto

lemma split_append_sep:
  "sep \<notin> set l \<Longrightarrow> split (l @ sep # rest) sep = l # split rest sep"
  by (induction l) auto

lemma split_join:
  "lines \<noteq> [] \<Longrightarrow> \<forall>l \<in> set lines. sep \<notin> set l \<Longrightarrow> split (join lines [sep]) sep = lines"
proof (induction lines "[sep]" rule: join.induct)
  case 1
  then show ?case by simp
next
  case (2 x)
  then show ?case by (simp add: split_no_sep)
next
  case (3 x y ys)
  then show ?case by (simp add: split_append_sep)
qed

lemma set_join_subset: "set (join xs sep) \<subseteq> set sep \<union> \<Union> (set ` set xs)"
  by (induction xs sep rule: join.induct) auto

lemma newline_not_in_header: "newline \<notin> set (join headers [comma])"
  by (simp add: headers_def js_def newline_def comma_def)

lemma newline_not_in_row:
  assumes "\<forall>cell \<in> set (csvRow b). newline \<notin> set cell"
  shows "newline \<notin> set (join (csvRow b) [comma])"
proof
  assume "newline \<in> set (join (csvRow b) [comma])"
  with set_join_subset [of "csvRow b" "[comma]"]
  have "newline \<in> set [comma] \<union> \<Union> (set ` set (csvRow b))" by blast
  with assms show False by (auto simp: newline_def comma_def)
qed

text \<open>A cell holds a newline exactly when the value it was made from is a string with one.\<close>

lemma formatCsvCell_newline:
  "newline \<in> set (formatCsvCell v) \<longleftrightarrow> (\<exists>s. v = JSString s \<and> newline \<in> set s)"
proof (cases v)
  case JSNull
  then show ?thesis by (simp add: formatCsvCell_def newline_def dquote_def)
next
  case JSUndefined
  then show ?thesis by (simp add: formatCsvCell_def newline_def dquote_def)
next
  case (JSString s)
  have "newline \<noteq> dquote" by (simp add: newline_def dquote_def)
  with JSString show ?thesis
    by (auto simp: formatCsvCell_string set_replace_quotes)
qed

text \<open>
  C7, as the code has it. For every non-empty sequence of books none of whose cells holds
  a newline, the document split at the newlines is the header line followed by one line
  per book, in the order of the input: one line more than there are books.
\<close>

theorem csvString_split_lines:
  assumes "bookData \<noteq> []"
    and "\<forall>b \<in> set bookData. \<forall>cell \<in> set (csvRow b). newline \<notin> set cell"
  shows "split (csvString bookData) newline =
           join headers [comma] # map (\<lambda>b. join (csvRow b) [comma]) bookData \<and>
         length (split (csvString bookData) newline) = length bookData + 1"
proof -
  have "\<forall>l \<in> set (csvLines bookData). newline \<notin> set l"
    using assms(2) newline_not_in_header newline_not_in_row
    by (auto simp: csvLines_map)
  moreover have "csvLines bookData \<noteq> []"
    by (simp add: csvLines_map)
  ultimately have "split (csvString bookData) newline = csvLines bookData"
    unfolding csvString_def by (simp add: split_join)
  then show ?thesis by (simp add: csvLines_map)
qed

theorem csvString_split_lines_witness:
  \<open>[\<lparr>Name = JSString (js ''Dune''), Author__r = Some \<lparr>author.Name = JSString (js ''Herbert, F.'')\<rparr>,
     Book_Genre__c = JSUndefined\<rparr>] \<noteq> [] \<and>
   list_all (\<lambda>b. list_all (\<lambda>cell. newline \<notin> set cell) (csvRow b))
     [\<lparr>Name = JSString (js ''Dune''),
       Author__r = Some \<lparr>author.Name = JSString (js ''Herbert, F.'')\<rparr>,
       Book_Genre__c = JSUndefined\<rparr>] \<and>
   split (csvString [\<lparr>Name = JSString (js ''Dune''),
                      Author__r = Some \<lparr>author.Name = JSString (js ''Herbert, F.'')\<rparr>,
                      Book_Genre__c = JSUndefined\<rparr>]) newline =
     [js ''Book Name,Author,Genre'', js ''Dune,"Herbert, F.",""'']\<close>
  using csvString_split_lines
    [of \<open>[\<lparr>Name = JSString (js ''Dune''),
           Author__r = Some \<lparr>author.Name = JSString (js ''Herbert, F.'')\<rparr>,
           Book_Genre__c = JSUndefined\<rparr>]\<close>]
  by (simp add: eval_defs)

text \<open>
  A name with a newline is wrapped in quotes and keeps its newline: the document of this
  one book splits into three pieces, not two.
\<close>

theorem csvString_split_lines_counterexample:
  "\<not> (length (split (csvString
          [\<lparr>Name = JSString (js ''a'' @ [newline] @ js ''b''), Author__r = None,
            Book_Genre__c = JSString (js ''x'')\<rparr>]) newline) =
        length [\<lparr>Name = JSString (js ''a'' @ [newline] @ js ''b''), Author__r = None,
                 Book_Genre__c = JSString (js ''x'')\<rparr>] + 1)"
  by (simp add: eval_defs)

lemma csv_cells_replace_quotes:
  "csv_cells True (replace_quotes s @ rest) = csv_cells True rest"
  by (induction s) auto

lemma csv_cells_plain:
  "dquote \<notin> set s \<Longrightarrow> comma \<notin> set s \<Longrightarrow> csv_cells q (s @ rest) = csv_cells q rest"
  by (induction s) auto

text \<open>A reader that meets an escaped cell outside quotes leaves it outside quotes.\<close>

lemma csv_cells_formatCsvCell:
  "csv_cells False (formatCsvCell v @ rest) = csv_cells False rest"
proof (cases v)
  case JSNull
  then show ?thesis by (simp add: formatCsvCell_def)
next
  case JSUndefined
  then show ?thesis by (simp add: formatCsvCell_def)
next
  case (JSString s)
  show ?thesis
  proof (cases "\<exists>c \<in> set s. matches_special c")
    case True
    with JSString show ?thesis
      by (simp add: formatCsvCell_string csv_cells_replace_quotes)
  next
    case False
    then have "dquote \<notin> set s" "comma \<notin> set s"
      by (auto simp: matches_special_def)
    with False JSString show ?thesis
      by (simp add: formatCsvCell_string replace_quotes_id csv_cells_plain)
  qed
qed

lemma csv_cell_count_row: "csv_cell_count (join (csvRow b) [comma]) = 3"
proof -
  have "csv_cells False (formatCsvCell v @ []) = 1" for v
    by (simp only: csv_cells_formatCsvCell csv_cells.simps)
  then have last: "csv_cells False (formatCsvCell v) = 1" for v by simp
  have "comma \<noteq> dquote" by (simp add: comma_def dquote_def)
  then show ?thesis
    by (simp add: csv_cell_count_def csvRow_def csv_cells_formatCsvCell last)
qed

lemma csv_cell_count_header: "csv_cell_count (join headers [comma]) = 3"
  by (simp add: csv_cell_count_def headers_def js_def comma_def dquote_def)

text \<open>
  C8. Every data row has as many cells as the header has columns, three: so it is for
  the array \<^verbatim>\<open>row\<close> of every book, and so a CSV reader finds it in every line of the
  document, whatever commas and quotes the values hold.
\<close>

theorem csvLines_cell_count:
  "(\<forall>b \<in> set bookData. length (csvRow b) = length headers) \<and> length headers = 3 \<and>
   (\<forall>line \<in> set (csvLines bookData). csv_cell_count line = 3)"
proof -
  have "length (csvRow b) = length headers" for b
    by (simp add: csvRow_def headers_def)
  moreover have "length headers = 3"
    by (simp add: headers_def)
  moreover have "\<forall>line \<in> set (csvLines bookData). csv_cell_count line = 3"
    by (auto simp: csvLines_map csv_cell_count_row csv_cell_count_header)
  ultimately show ?thesis by blast
qed

theorem csvLines_cell_count_witness:
  \<open>csvLines [\<lparr>Name = JSString (js ''Say "no", twice''), Author__r = None,
               Book_Genre__c = JSNull\<rparr>] =
     [js ''Book Name,Author,Genre'', js ''"Say ""no"", twice",,""''] \<and>
   list_all (\<lambda>b. length (csvRow b) = length headers)
     [\<lparr>Name = JSString (js ''Say "no", twice''), Author__r = None, Book_Genre__c = JSNull\<rparr>] \<and>
   length headers = 3 \<and>
   list_all (\<lambda>line. csv_cell_count line = 3)
     (csvLines [\<lparr>Name = JSString (js ''Say "no", twice''), Author__r = None,
                 Book_Genre__c = JSNull\<rparr>])\<close>
  using csvLines_cell_count
    [of \<open>[\<lparr>Name = JSString (js ''Say "no", twice''), Author__r = None,
           Book_Genre__c = JSNull\<rparr>]\<close>]
  by (simp add: eval_defs)

text \<open>
  C10. Only \<^verbatim>\<open>null\<close> and \<^verbatim>\<open>undefined\<close> become the two quotes; the empty string
  stays the empty, unquoted cell. The document shows the difference: a book whose author
  was not retrieved has an empty author cell, a book whose author has a null name has the
  two quotes there, and the two documents differ.
\<close>

theorem formatCsvCell_empty_string:
  "formatCsvCell (JSString []) = [] \<and>
   formatCsvCell JSNull = [dquote, dquote] \<and> formatCsvCell JSUndefined = [dquote, dquote] \<and>
   csvRow (b\<lparr>Author__r := None\<rparr>) =
     [formatCsvCell (book.Name b), [], formatCsvCell (Book_Genre__c b)] \<and>
   csvRow (b\<lparr>Author__r := Some \<lparr>author.Name = JSNull\<rparr>\<rparr>) =
     [formatCsvCell (book.Name b), [dquote, dquote], formatCsvCell (Book_Genre__c b)] \<and>
   csvString [b\<lparr>Author__r := None\<rparr>] \<noteq>
     csvString [b\<lparr>Author__r := Some \<lparr>author.Name = JSNull\<rparr>\<rparr>]"
proof -
  have cells: "formatCsvCell (JSString []) = []" "formatCsvCell JSNull = [dquote, dquote]"
    "formatCsvCell JSUndefined = [dquote, dquote]"
    by (simp_all add: formatCsvCell_string) (simp_all add: formatCsvCell_def)
  have "comma \<noteq> dquote" by (simp add: comma_def dquote_def)
  then have "csvString [b\<lparr>Author__r := None\<rparr>] \<noteq>
      csvString [b\<lparr>Author__r := Some \<lparr>author.Name = JSNull\<rparr>\<rparr>]"
    by (simp add: csvString_def csvLines_map csvRow_def cells)
  then show ?thesis
    by (simp add: csvRow_def cells)
qed

section \<open>Properties of the export\<close>

text \<open>
  C6. With no book to export, the export only dispatches the toast titled
  \<^verbatim>\<open>No Data\<close> and returns: the fields of the component are as before, no element is
  added to the document and none is clicked, so no file is produced.
\<close>

theorem handleExportClick_empty:
  "handleExportClick [] w =
     Inr (w\<lparr>calls := calls w @
              [DispatchToast (js ''No Data'') (js ''No data to export.'') (js ''info'')]\<rparr>) \<and>
   component (w\<lparr>calls := calls w @
              [DispatchToast (js ''No Data'') (js ''No data to export.'') (js ''info'')]\<rparr>) =
     component w"
  by (simp add: handleExportClick_def showToast_def)

text \<open>
  With a book to export there is no toast: the export either raises or makes the three
  calls on the document for one anchor, whose file name is \<^verbatim>\<open>book-list.csv\<close>.
\<close>

lemma handleExportClick_nonempty:
  assumes "bookData \<noteq> []" and "handleExportClick bookData w = Inr w'"
  shows "\<exists>a. calls w' = calls w @ [AppendChild a, Click a, RemoveChild a] \<and>
             component w' = component w \<and> download a = js ''book-list.csv''"
  using assms
  by (auto simp: handleExportClick_def downloadCsv_def Let_def split: sum.splits)

section \<open>Properties of the delivery\<close>

lemma below_16:
  "k < 16 \<Longrightarrow> k \<in> {0, 1, 2, 3, 4, 5, 6, 7, 8, 9, 10, 11, 12, 13, 14, 15 :: nat}"
  by (simp only: insert_iff empty_iff) arith

lemma hex_value_hex_digit: "k < 16 \<Longrightarrow> hex_value (hex_digit k) = Some k"
  by (drule below_16)
    (simp only: insert_iff empty_iff, elim disjE; simp add: hex_value_def hex_digit_def)

lemma hex_digit_not_hash: "k < 16 \<Longrightarrow> hex_digit k \<noteq> 0x23"
  by (drule below_16) (simp only: insert_iff empty_iff, elim disjE; simp add: hex_digit_def)

lemma uri_unescaped_ascii:
  assumes "uri_unescaped c"
  shows "c \<noteq> 0x25" and "unat c < 0x80" and "\<not> is_lead_surrogate c"
  using assms
  by (auto simp: uri_unescaped_def js_def is_lead_surrogate_def word_le_nat_alt)

lemma utf8_octets_bytes: "cp < 0x200000 \<Longrightarrow> \<forall>b \<in> set (utf8_octets cp). b < 256"
  by (auto simp: utf8_octets_def)

lemma unat_jschar: "unat (c :: jschar) < 0x200000"
proof -
  have "unat c < 2 ^ LENGTH(16)" by (rule unsigned_less)
  then show ?thesis by simp
qed

lemma surrogate_pair_bound:
  "is_lead_surrogate c \<Longrightarrow> is_trail_surrogate d \<Longrightarrow> surrogate_pair c d < 0x200000"
  unfolding is_lead_surrogate_def is_trail_surrogate_def surrogate_pair_def word_le_nat_alt
  by simp arith

lemma prepend_Inr: "prepend xs r = Inr enc \<longleftrightarrow> (\<exists>ys. r = Inr ys \<and> enc = xs @ ys)"
  by (cases r) auto

lemma hash_not_in_octet: "b < 256 \<Longrightarrow> 0x23 \<notin> set (percent_octet b)"
proof -
  assume "b < 256"
  then have "b div 16 < 16" "b mod 16 < 16" by arith+
  then show ?thesis
    by (simp add: percent_octet_def hex_digit_not_hash [symmetric])
qed

lemma hash_not_in_escape: "cp < 0x200000 \<Longrightarrow> 0x23 \<notin> set (percent_escape cp)"
  using utf8_octets_bytes [of cp] by (auto simp: percent_escape_def hash_not_in_octet)

lemma encodeURI_hash:
  "encodeURI s = Inr enc \<Longrightarrow> 0x23 \<in> set enc \<Longrightarrow> 0x23 \<in> set s"
proof (induction s arbitrary: enc rule: encodeURI.induct)
  case 1
  then show ?case by simp
next
  case (2 c)
  then show ?case
    using hash_not_in_escape [OF unat_jschar, of c]
    by (auto split: if_splits)
next
  case (3 c d ds)
  show ?case
  proof (cases "uri_unescaped c")
    case True
    with "3.prems" "3.IH"(1) show ?thesis
      by (auto simp: prepend_Inr)
  next
    case False
    note unesc = this
    show ?thesis
    proof (cases "is_lead_surrogate c")
      case True
      with unesc "3.prems" have nt: "\<not> is_trail_surrogate c" and td: "is_trail_surrogate d"
        by (auto split: if_splits)
      with unesc True "3.prems" obtain ys where
        ys: "encodeURI ds = Inr ys" "enc = percent_escape (surrogate_pair c d) @ ys"
        by (auto simp: prepend_Inr)
      with "3.prems"(2) hash_not_in_escape [OF surrogate_pair_bound [OF True td]]
      have "0x23 \<in> set ys" by simp
      from "3.IH"(2) [OF unesc nt True td ys(1) this] show ?thesis by simp
    next
      case False
      with unesc "3.prems" have nt: "\<not> is_trail_surrogate c"
        by (auto split: if_splits)
      with unesc False "3.prems" obtain ys where
        ys: "encodeURI (d # ds) = Inr ys" "enc = percent_escape (unat c) @ ys"
        by (auto simp: prepend_Inr)
      with "3.prems"(2) hash_not_in_escape [OF unat_jschar, of c]
      have "0x23 \<in> set ys" by simp
      from "3.IH"(3) [OF unesc nt False ys(1) this] show ?thesis by simp
    qed
  qed
qed

lemma data_uri_payload_prefix:
  "0x23 \<notin> set encoded \<Longrightarrow>
     data_uri_payload (js ''data:text/csv;charset=utf-8,'' @ encoded) = percent_decode encoded"
proof -
  assume "0x23 \<notin> set encoded"
  then have "uri_without_fragment (js ''data:text/csv;charset=utf-8,'' @ encoded) =
      js ''data:text/csv;charset=utf-8,'' @ encoded"
    unfolding uri_without_fragment_def
    by (intro takeWhile_eq_all_conv [THEN iffD2]) (auto simp: js_def)
  moreover have "after_comma (js ''data:text/csv;charset=utf-8,'' @ encoded) = encoded"
    by (simp add: after_comma_def js_def comma_def)
  ultimately show ?thesis
    by (simp add: data_uri_payload_def)
qed

lemma utf8_text_bom: "utf8_text (bom # s) = [0xEF, 0xBB, 0xBF] @ utf8_text s"
  by (cases s) (simp_all add: bom_def is_lead_surrogate_def utf8_octets_def)

lemma percent_decode_Cons:
  "c \<noteq> 0x25 \<Longrightarrow> percent_decode (c # cs) = unat c # percent_decode cs"
  by (cases "c # cs" rule: percent_decode.cases) auto

lemma percent_decode_octet:
  assumes "b < 256"
  shows "percent_decode (percent_octet b @ rest) = b # percent_decode rest"
proof -
  from assms have "b div 16 < 16" "b mod 16 < 16" by arith+
  then have "hex_value (hex_digit (b div 16)) = Some (b div 16)"
    "hex_value (hex_digit (b mod 16)) = Some (b mod 16)"
    by (simp_all add: hex_value_hex_digit)
  then show ?thesis by (simp add: percent_octet_def)
qed

lemma percent_decode_octets:
  "\<forall>b \<in> set bs. b < 256 \<Longrightarrow>
     percent_decode (concat (map percent_octet bs) @ rest) = bs @ percent_decode rest"
  by (induction bs) (simp_all add: percent_decode_octet)

lemma percent_decode_escape:
  "cp < 0x200000 \<Longrightarrow>
     percent_decode (percent_escape cp @ rest) = utf8_octets cp @ percent_decode rest"
  unfolding percent_escape_def
  by (rule percent_decode_octets) (rule utf8_octets_bytes)

lemma utf8_text_Cons:
  "\<not> is_lead_surrogate c \<Longrightarrow> utf8_text (c # cs) = utf8_octets (unat c) @ utf8_text cs"
  by (cases cs) simp_all

lemma utf8_octets_ascii: "n < 0x80 \<Longrightarrow> utf8_octets n = [n]"
  by (simp add: utf8_octets_def)

lemma percent_decode_encodeURI:
  "encodeURI s = Inr enc \<Longrightarrow> percent_decode enc = utf8_text s"
proof (induction s arbitrary: enc rule: encodeURI.induct)
  case 1
  then show ?case by simp
next
  case (2 c)
  show ?case
  proof (cases "uri_unescaped c")
    case True
    with 2 have "enc = [c]" by simp
    with uri_unescaped_ascii [OF True] show ?thesis
      by (simp add: percent_decode_Cons utf8_octets_ascii)
  next
    case False
    with 2 have "enc = percent_escape (unat c)"
      by (simp split: if_splits)
    with percent_decode_escape [OF unat_jschar, of c "[]"] show ?thesis by simp
  qed
next
  case (3 c d ds)
  show ?case
  proof (cases "uri_unescaped c")
    case True
    with "3.prems" obtain ys where ys: "encodeURI (d # ds) = Inr ys" "enc = c # ys"
      by (auto simp: prepend_Inr)
    from "3.IH"(1) [OF True ys(1)] ys(2) uri_unescaped_ascii [OF True] show ?thesis
      by (simp add: percent_decode_Cons utf8_octets_ascii del: utf8_text.simps
          add: utf8_text_Cons)
  next
    case False
    note unesc = this
    show ?thesis
    proof (cases "is_lead_surrogate c")
      case True
      with unesc "3.prems" have nt: "\<not> is_trail_surrogate c" and td: "is_trail_surrogate d"
        by (auto split: if_splits)
      with unesc True "3.prems" obtain ys where
        ys: "encodeURI ds = Inr ys" "enc = percent_escape (surrogate_pair c d) @ ys"
        by (auto simp: prepend_Inr)
      from "3.IH"(2) [OF unesc nt True td ys(1)] ys(2)
        percent_decode_escape [OF surrogate_pair_bound [OF True td]] True td
      show ?thesis by simp
    next
      case False
      with unesc "3.prems" have nt: "\<not> is_trail_surrogate c"
        by (auto split: if_splits)
      with unesc False "3.prems" obtain ys where
        ys: "encodeURI (d # ds) = Inr ys" "enc = percent_escape (unat c) @ ys"
        by (auto simp: prepend_Inr)
      from "3.IH"(3) [OF unesc nt False ys(1)] ys(2) percent_decode_escape [OF unat_jschar] False
      show ?thesis by simp
    qed
  qed
qed

text \<open>
  Where the document holds no \<^verbatim>\<open>#\<close> and \<^verbatim>\<open>encodeURI\<close> does not raise, the anchor
  that is clicked denotes the byte order mark followed by the document, in UTF-8.
\<close>

lemma downloadCsv_payload:
  assumes "0x23 \<notin> set csvData" and "encodeURI (bom # csvData) = Inr encoded"
  shows "downloadCsv csvData fileName w =
           Inr (w\<lparr>calls := calls w @
             [AppendChild \<lparr>href = js ''data:text/csv;charset=utf-8,'' @ encoded,
                target = js ''_blank'', download = fileName\<rparr>,
              Click \<lparr>href = js ''data:text/csv;charset=utf-8,'' @ encoded,
                target = js ''_blank'', download = fileName\<rparr>,
              RemoveChild \<lparr>href = js ''data:text/csv;charset=utf-8,'' @ encoded,
                target = js ''_blank'', download = fileName\<rparr>]\<rparr>) \<and>
         data_uri_payload (js ''data:text/csv;charset=utf-8,'' @ encoded) =
           [0xEF, 0xBB, 0xBF] @ utf8_text csvData"
proof -
  have "0x23 \<notin> set (bom # csvData)"
    using assms(1) by (simp add: bom_def)
  with encodeURI_hash [OF assms(2)] have "0x23 \<notin> set encoded" by blast
  then have "data_uri_payload (js ''data:text/csv;charset=utf-8,'' @ encoded) =
      percent_decode encoded"
    by (rule data_uri_payload_prefix)
  also have "\<dots> = utf8_text (bom # csvData)"
    using assms(2) by (rule percent_decode_encodeURI)
  finally show ?thesis
    using assms(2) by (simp add: utf8_text_bom downloadCsv_def Let_def)
qed

lemmas uri_defs =
  uri_unescaped_def is_lead_surrogate_def is_trail_surrogate_def percent_escape_def
  percent_octet_def hex_digit_def utf8_octets_def bom_def

lemmas payload_defs =
  data_uri_payload_def uri_without_fragment_def after_comma_def hex_value_def

text \<open>
  C9, at a document with a \<^verbatim>\<open>#\<close>. For the one book named \<^verbatim>\<open>C# in Depth\<close> the
  delivery prepends the byte order mark and builds a \<^verbatim>\<open>data:\<close> URI of type
  \<^verbatim>\<open>text/csv;charset=utf-8\<close>, but \<^verbatim>\<open>encodeURI\<close> leaves the \<^verbatim>\<open>#\<close> as it is: the
  URI that is clicked ends there, and what it denotes is the byte order mark followed by
  the document cut before the \<^verbatim>\<open>#\<close>, not by the whole document.
\<close>

theorem downloadCsv_hash_fragment:
  \<open>csvString [\<lparr>Name = JSString (js ''C# in Depth''), Author__r = None,
                Book_Genre__c = JSString (js ''IT'')\<rparr>] =
     js ''Book Name,Author,Genre'' @ [newline] @ js ''"C# in Depth",,IT'' \<and>
   downloadCsv (js ''Book Name,Author,Genre'' @ [newline] @ js ''"C# in Depth",,IT'')
       (js ''book-list.csv'') w =
     Inr (w\<lparr>calls := calls w @
       [AppendChild \<lparr>href = js ''data:text/csv;charset=utf-8,%EF%BB%BFBook%20Name,Author,Genre%0A%22C#%20in%20Depth%22,,IT'',
          target = js ''_blank'', download = js ''book-list.csv''\<rparr>,
        Click \<lparr>href = js ''data:text/csv;charset=utf-8,%EF%BB%BFBook%20Name,Author,Genre%0A%22C#%20in%20Depth%22,,IT'',
          target = js ''_blank'', download = js ''book-list.csv''\<rparr>,
        RemoveChild \<lparr>href = js ''data:text/csv;charset=utf-8,%EF%BB%BFBook%20Name,Author,Genre%0A%22C#%20in%20Depth%22,,IT'',
          target = js ''_blank'', download = js ''book-list.csv''\<rparr>]\<rparr>) \<and>
   data_uri_payload (js ''data:text/csv;charset=utf-8,%EF%BB%BFBook%20Name,Author,Genre%0A%22C#%20in%20Depth%22,,IT'') =
     [0xEF, 0xBB, 0xBF] @ utf8_text (js ''Book Name,Author,Genre'' @ [newline] @ js ''"C'') \<and>
   data_uri_payload (js ''data:text/csv;charset=utf-8,%EF%BB%BFBook%20Name,Author,Genre%0A%22C#%20in%20Depth%22,,IT'') \<noteq>
     [0xEF, 0xBB, 0xBF] @ utf8_text (js ''Book Name,Author,Genre'' @ [newline] @ js ''"C# in Depth",,IT'')\<close>
  by (simp add: eval_defs uri_defs payload_defs downloadCsv_def Let_def)

end
